theory Spec2Isabelle
  imports Main "HOL-Library.AList"
begin


section \<open>The property model of HotDrink (src/hd/system/pm.ts)\<close>

text \<open>
  The class \<^verbatim>\<open>PropertyModel\<close> is embedded as a record of its fields and one HOL
  function per member function, taking the state and returning the new one. A
  member function that can raise a JavaScript \<^verbatim>\<open>TypeError\<close> (a property read on
  \<^verbatim>\<open>null\<close> or \<^verbatim>\<open>undefined\<close>) returns an \<open>outcome\<close>: the exception does not roll
  the object back, so the fault carries the state reached when it was raised.
\<close>

subsection \<open>Identifiers and model objects\<close>

type_synonym vid = string
type_synonym mid = string
type_synonym cid = string
type_synonym ctxid = string

text \<open>A \<^verbatim>\<open>u.StringSet\<close> is an object used as a set of keys; its members are listed
  in insertion order. A \<^verbatim>\<open>u.ArraySet\<close> is an array without repetitions.\<close>

type_synonym stringSet = "string list"

definition stringSet_add :: "stringSet \<Rightarrow> string \<Rightarrow> stringSet" where
  "stringSet_add ss k = (if k \<in> set ss then ss else ss @ [k])"

definition stringSet_delete :: "stringSet \<Rightarrow> string \<Rightarrow> stringSet" where
  "stringSet_delete ss k = removeAll k ss"

text \<open>Modelled from the spec: \<^verbatim>\<open>u.arraySet.add\<close> and \<^verbatim>\<open>u.arraySet.remove\<close> of
  hd.utility are not under src/; an array set holds each element once.\<close>

definition arraySet_add :: "'a list \<Rightarrow> 'a \<Rightarrow> 'a list" where
  "arraySet_add xs x = (if x \<in> set xs then xs else xs @ [x])"

definition arraySet_remove :: "'a list \<Rightarrow> 'a \<Rightarrow> 'a list" where
  "arraySet_remove xs x = remove1 x xs"

text \<open>Modelled from the spec: the enumeration \<^verbatim>\<open>m.Optional\<close> (levels Max, Min and
  Default) is declared outside src/.\<close>

datatype optional = Default | Min | Max

text \<open>The parts of \<^verbatim>\<open>m.Variable\<close>, \<^verbatim>\<open>m.Method\<close> and \<^verbatim>\<open>m.Constraint\<close> that the
  property model reads: \<^verbatim>\<open>vv.id\<close>, \<^verbatim>\<open>vv.optional\<close>, \<^verbatim>\<open>vv.pending.get()\<close>,
  \<^verbatim>\<open>vv.source\<close>; \<^verbatim>\<open>mm.id\<close>, \<^verbatim>\<open>mm.inputVars\<close>, \<^verbatim>\<open>mm.outputs\<close>; \<^verbatim>\<open>cc.id\<close>,
  \<^verbatim>\<open>cc.methods\<close>, \<^verbatim>\<open>cc.optional\<close>.\<close>

record variable =
  v_id :: vid
  v_optional :: optional
  v_pending :: bool
  v_source :: bool

record hdmethod =
  m_id :: mid
  m_inputVars :: "vid list"
  m_outputs :: "vid list"

record hdconstraint =
  c_id :: cid
  c_methods :: "hdmethod list"
  c_optional :: optional

text \<open>An endpoint of a touch dependency is a variable or a constraint
  (\<^verbatim>\<open>m.Constraint|m.Variable\<close>).\<close>

datatype touchEnd = TVariable variable | TConstraint hdconstraint

text \<open>A \<^verbatim>\<open>ComponentElement\<close> reported by a context.\<close>

datatype element =
    EVariable variable
  | EConstraint hdconstraint
  | EOutput variable
  | ETouchDep touchEnd touchEnd

subsection \<open>Stay identifiers (hd.graph)\<close>

text \<open>Modelled from the spec: \<^verbatim>\<open>g.stayMethod\<close>, \<^verbatim>\<open>g.stayConstraint\<close>,
  \<^verbatim>\<open>g.isStayMethod\<close> and \<^verbatim>\<open>g.isStayConstraint\<close> are not under src/. Every
  variable has an implicit stay constraint with one stay method; the identifiers
  are derived from the variable's id by a suffix.\<close>

definition stayMethod :: "vid \<Rightarrow> mid" where
  "stayMethod v = v @ ''#sm''"

definition stayConstraint :: "vid \<Rightarrow> cid" where
  "stayConstraint v = v @ ''#sc''"

definition isStayMethod :: "mid \<Rightarrow> bool" where
  "isStayMethod m = (3 \<le> length m \<and> drop (length m - 3) m = ''#sm'')"

definition isStayConstraint :: "cid \<Rightarrow> bool" where
  "isStayConstraint c = (3 \<le> length c \<and> drop (length c - 3) c = ''#sc'')"

subsection \<open>The constraint graph (hd.graph)\<close>

text \<open>Modelled from the spec: the class \<^verbatim>\<open>g.ConstraintGraph\<close> is not under src/.
  The graph is bipartite over variables and methods; a method records its
  constraint, its inputs and its outputs. Mutations are idempotent on re-adds of
  the same id, removing an unknown id is a no-op, and a constraint is present
  exactly as long as one of its methods is.\<close>

record cg_method =
  cm_id :: mid
  cm_cid :: cid
  cm_inputs :: "vid list"
  cm_outputs :: "vid list"

record cgraph =
  cg_variables :: "vid list"
  cg_methods :: "cg_method list"

definition cg_empty :: cgraph where
  "cg_empty = \<lparr>cg_variables = [], cg_methods = []\<rparr>"

definition cg_addVariable :: "cgraph \<Rightarrow> vid \<Rightarrow> cgraph" where
  "cg_addVariable g v =
     (if v \<in> set (cg_variables g) then g
      else g\<lparr>cg_variables := cg_variables g @ [v]\<rparr>)"

definition cg_removeVariable :: "cgraph \<Rightarrow> vid \<Rightarrow> cgraph" where
  "cg_removeVariable g v = g\<lparr>cg_variables := removeAll v (cg_variables g)\<rparr>"

definition cg_addMethod :: "cgraph \<Rightarrow> mid \<Rightarrow> cid \<Rightarrow> vid list \<Rightarrow> vid list \<Rightarrow> cgraph" where
  "cg_addMethod g m c ins outs =
     (if m \<in> cm_id ` set (cg_methods g) then g
      else g\<lparr>cg_methods := cg_methods g @
             [\<lparr>cm_id = m, cm_cid = c, cm_inputs = ins, cm_outputs = outs\<rparr>]\<rparr>)"

definition cg_removeMethod :: "cgraph \<Rightarrow> mid \<Rightarrow> cgraph" where
  "cg_removeMethod g m = g\<lparr>cg_methods := filter (\<lambda>e. cm_id e \<noteq> m) (cg_methods g)\<rparr>"


definition cg_methodsOf :: "cgraph \<Rightarrow> cid \<Rightarrow> mid list" where
  "cg_methodsOf g c = map cm_id (filter (\<lambda>e. cm_cid e = c) (cg_methods g))"

definition cg_constraintForMethod :: "cgraph \<Rightarrow> mid \<Rightarrow> cid option" where
  "cg_constraintForMethod g m = map_option cm_cid (find (\<lambda>e. cm_id e = m) (cg_methods g))"

text \<open>The constraints which use a variable are those with a method that reads or
  writes it. The variable's own stay constraint is not counted: it is present for
  every registered variable, and \<^verbatim>\<open>removeVariable\<close> removes a variable exactly
  when this list is empty.\<close>

definition cg_constraintsWhichUse :: "cgraph \<Rightarrow> vid \<Rightarrow> cid list" where
  "cg_constraintsWhichUse g v =
     remdups (map cm_cid
       (filter (\<lambda>e. \<not> isStayMethod (cm_id e) \<and>
                     (v \<in> set (cm_inputs e) \<or> v \<in> set (cm_outputs e)))
               (cg_methods g)))"

subsection \<open>The solution graph (hd.graph)\<close>

text \<open>Modelled from the spec: the class \<^verbatim>\<open>g.SolutionGraph\<close> is not under src/. It
  is the subgraph of the constraint graph that holds the selected method of every
  enforced constraint.\<close>

type_synonym sgraph = cgraph

definition sg_selectedForConstraint :: "sgraph \<Rightarrow> cid \<Rightarrow> mid option" where
  "sg_selectedForConstraint g c =
     map_option cm_id (find (\<lambda>e. cm_cid e = c) (cg_methods g))"

text \<open>\<^verbatim>\<open>selectMethod( cid, null )\<close>: the constraint has no selected method afterwards.\<close>

definition sg_unselect :: "sgraph \<Rightarrow> cid \<Rightarrow> sgraph" where
  "sg_unselect g c = g\<lparr>cg_methods := filter (\<lambda>e. cm_cid e \<noteq> c) (cg_methods g)\<rparr>"

text \<open>Modelled from the spec: \<^verbatim>\<open>g.DigraphWalker\<close> is not under src/. The methods
  downstream of a seed set are the seeds and every selected method that reads an
  output of a downstream method; the variables downstream are their outputs. The
  closure is reached after at most as many rounds as the graph has methods.\<close>

definition downstreamStep :: "sgraph \<Rightarrow> mid list \<Rightarrow> mid list" where
  "downstreamStep g ms =
     (let written = concat (map cm_outputs (filter (\<lambda>e. cm_id e \<in> set ms) (cg_methods g)))
      in ms @ map cm_id (filter (\<lambda>e. cm_id e \<notin> set ms \<and>
                                      (\<exists>v \<in> set (cm_inputs e). v \<in> set written))
                                (cg_methods g)))"

definition nodesDownstreamSameType :: "sgraph \<Rightarrow> mid list \<Rightarrow> mid list" where
  "nodesDownstreamSameType g ms = ((downstreamStep g) ^^ length (cg_methods g)) (remdups ms)"

definition nodesDownstreamOtherType :: "sgraph \<Rightarrow> mid list \<Rightarrow> vid list" where
  "nodesDownstreamOtherType g ms =
     remdups (concat (map cm_outputs
       (filter (\<lambda>e. cm_id e \<in> set (nodesDownstreamSameType g ms)) (cg_methods g))))"

subsection \<open>The planner's strength order (hd.plan)\<close>

text \<open>Modelled from the spec: the planner classes are not under src/. The planner
  keeps a total order over the optional constraint ids, here a list from the
  weakest to the strongest, which is the order \<^verbatim>\<open>plan\<close> of the property model
  hands to \<^verbatim>\<open>setOptionals\<close>. \<^verbatim>\<open>setMaxStrength\<close> moves an id to the strongest end,
  \<^verbatim>\<open>setMinStrength\<close> to the weakest end. \<^verbatim>\<open>compare a b\<close> is positive when \<open>a\<close> is
  stronger than \<open>b\<close>; an id outside the order is a required constraint, stronger
  than every optional one.\<close>

record planner =
  pl_strengths :: "cid list"
  pl_sgraph :: "sgraph option"

definition newPlanner :: planner where
  "newPlanner = \<lparr>pl_strengths = [], pl_sgraph = None\<rparr>"

definition setMaxStrength :: "planner \<Rightarrow> cid \<Rightarrow> planner" where
  "setMaxStrength p c = p\<lparr>pl_strengths := removeAll c (pl_strengths p) @ [c]\<rparr>"

definition setMinStrength :: "planner \<Rightarrow> cid \<Rightarrow> planner" where
  "setMinStrength p c = p\<lparr>pl_strengths := c # removeAll c (pl_strengths p)\<rparr>"

definition removeOptional :: "planner \<Rightarrow> cid \<Rightarrow> planner" where
  "removeOptional p c = p\<lparr>pl_strengths := removeAll c (pl_strengths p)\<rparr>"


definition setOptionals :: "planner \<Rightarrow> cid list \<Rightarrow> planner" where
  "setOptionals p cs = p\<lparr>pl_strengths := cs\<rparr>"

fun strengthRank :: "cid list \<Rightarrow> cid \<Rightarrow> nat option" where
  "strengthRank [] c = None"
| "strengthRank (x # xs) c =
     (if x = c then Some 0 else map_option Suc (strengthRank xs c))"

definition compare :: "planner \<Rightarrow> cid \<Rightarrow> cid \<Rightarrow> int" where
  "compare p a b =
     (case (strengthRank (pl_strengths p) a, strengthRank (pl_strengths p) b) of
        (Some i, Some j) \<Rightarrow> int i - int j
      | (None, Some j) \<Rightarrow> 1
      | (Some i, None) \<Rightarrow> - 1
      | (None, None) \<Rightarrow> 0)"

text \<open>\<^verbatim>\<open>Array.prototype.sort\<close> with a comparison function: \<open>x\<close> stays before \<open>y\<close>
  unless the comparison is positive. The model is the stable insertion sort.\<close>

fun insertBy :: "('a \<Rightarrow> 'a \<Rightarrow> int) \<Rightarrow> 'a \<Rightarrow> 'a list \<Rightarrow> 'a list" where
  "insertBy f x [] = [x]"
| "insertBy f x (y # ys) = (if f x y \<le> 0 then x # y # ys else y # insertBy f x ys)"

definition sortBy :: "('a \<Rightarrow> 'a \<Rightarrow> int) \<Rightarrow> 'a list \<Rightarrow> 'a list" where
  "sortBy f xs = foldr (insertBy f) xs []"

subsection \<open>The state of a property model\<close>

datatype error = TypeError

text \<open>What the property model does to objects outside itself is kept as a trace:
  a method activation, a variable's \<^verbatim>\<open>commitPromise\<close> and \<^verbatim>\<open>makePromise\<close>, a call
  of \<^verbatim>\<open>enable.methodScheduled\<close>, a call of \<^verbatim>\<open>Context.reportUpdates\<close>.\<close>

datatype traceEvent =
    Activated mid
  | Committed vid
  | Promised vid
  | MethodScheduled "cid option" "mid option"
  | ReportedUpdates ctxid

text \<open>The fields of \<^verbatim>\<open>PropertyModel\<close>. A dictionary is a map; \<^verbatim>\<open>touchDeps\<close> is an
  association list, so that the ids it mentions are finitely many. A context is
  known by its identity (\<open>ctxid\<close>); \<open>ctxChanges\<close> holds, for every context, the
  adds and removes it has not reported yet; \<^verbatim>\<open>topomids\<close> is \<open>None\<close> as long as it is
  \<^verbatim>\<open>undefined\<close>. \<^verbatim>\<open>solved\<close> is the value last set on
  the signal; \<^verbatim>\<open>isUpdateScheduled\<close> tells that \<^verbatim>\<open>performScheduledUpdate\<close> is
  queued. \<^verbatim>\<open>outputVids\<close> counts in JavaScript numbers, which are exact on the
  naturals below \<open>2 ^ 53\<close>.\<close>

record pm =
  cgraph :: cgraph
  sgraph :: "sgraph option"
  topomids :: "mid list option"
  planner :: "planner option"
  variables :: "vid \<rightharpoonup> variable"
  methods :: "mid \<rightharpoonup> hdmethod"
  constraints :: "cid \<rightharpoonup> hdconstraint"
  scheduleUpdateOnChange :: bool
  isUpdateScheduled :: bool
  solved :: bool
  pendingCount :: nat
  needUpdating :: "ctxid list"
  needEnforcing :: stringSet
  needEvaluating :: stringSet
  isUpdateNeeded :: bool
  touchDeps :: "(cid \<times> cid list) list"
  outputVids :: "vid \<rightharpoonup> nat"
  hasOptionals :: bool
  ctxChanges :: "ctxid \<Rightarrow> element list \<times> element list"
  trace :: "traceEvent list"

datatype outcome = Done pm | Fault error pm

definition andThen :: "outcome \<Rightarrow> (pm \<Rightarrow> outcome) \<Rightarrow> outcome" where
  "andThen r f = (case r of Done s \<Rightarrow> f s | Fault e s \<Rightarrow> Fault e s)"

definition stateOf :: "outcome \<Rightarrow> pm" where
  "stateOf r = (case r of Done s \<Rightarrow> s | Fault e s \<Rightarrow> s)"

definition isDone :: "outcome \<Rightarrow> bool" where
  "isDone r = (case r of Done s \<Rightarrow> True | Fault e s \<Rightarrow> False)"

text \<open>The planner type, the topological sort and the configuration are parameters:
  \<^verbatim>\<open>planner.plan\<close> returns whether a solution was found, together with the
  planner afterwards (whose \<^verbatim>\<open>getSGraph\<close> is \<open>pl_sgraph\<close>); \<^verbatim>\<open>toposort\<close> of the
  \<^verbatim>\<open>topograph\<close> returns the selected methods in evaluation order.\<close>

record env =
  env_plan :: "planner \<Rightarrow> cgraph \<Rightarrow> sgraph option \<Rightarrow> cid list \<Rightarrow> bool \<times> planner"
  env_toposort :: "cgraph \<Rightarrow> sgraph \<Rightarrow> planner \<Rightarrow> mid list"
  forwardEmergingSources :: bool

text \<open>The constructor: \<open>withPlanner\<close> tells whether a planner type was given.\<close>

definition newPropertyModel :: "bool \<Rightarrow> pm" where
  "newPropertyModel withPlanner =
     \<lparr>cgraph = cg_empty, sgraph = None, topomids = None,
      planner = (if withPlanner then Some newPlanner else None),
      variables = Map.empty, methods = Map.empty, constraints = Map.empty,
      scheduleUpdateOnChange = True, isUpdateScheduled = False,
      solved = True, pendingCount = 0,
      needUpdating = [], needEnforcing = [], needEvaluating = [],
      isUpdateNeeded = False, touchDeps = [], outputVids = Map.empty,
      hasOptionals = False, ctxChanges = (\<lambda>c. ([], [])), trace = []\<rparr>"

definition plannerOf :: "pm \<Rightarrow> planner" where
  "plannerOf s = (case planner s of None \<Rightarrow> newPlanner | Some p \<Rightarrow> p)"

definition getPlanner :: "pm \<Rightarrow> pm" where
  "getPlanner s = s\<lparr>planner := Some (plannerOf s)\<rparr>"

subsection \<open>Recording changes\<close>

definition scheduleUpdate :: "pm \<Rightarrow> pm" where
  "scheduleUpdate s =
     (if \<not> isUpdateScheduled s then s\<lparr>isUpdateScheduled := True\<rparr> else s)"

definition recordChange :: "pm \<Rightarrow> pm" where
  "recordChange s =
     (let s1 = s\<lparr>isUpdateNeeded := True, solved := False\<rparr>
      in if scheduleUpdateOnChange s1 then scheduleUpdate s1 else s1)"

definition recordContextChange :: "pm \<Rightarrow> ctxid \<Rightarrow> pm" where
  "recordContextChange s ctx =
     recordChange (s\<lparr>needUpdating := arraySet_add (needUpdating s) ctx\<rparr>)"

definition recordConstraintChange :: "pm \<Rightarrow> cid \<Rightarrow> pm" where
  "recordConstraintChange s ccid =
     recordChange (s\<lparr>needEnforcing := stringSet_add (needEnforcing s) ccid\<rparr>)"

definition recordVariableChange :: "pm \<Rightarrow> cid \<Rightarrow> pm" where
  "recordVariableChange s stayid =
     recordChange (s\<lparr>needEvaluating := stringSet_add (needEvaluating s) stayid\<rparr>)"

definition removeConstraintRecords :: "pm \<Rightarrow> cid \<Rightarrow> pm" where
  "removeConstraintRecords s ccid =
     s\<lparr>needEnforcing := stringSet_delete (needEnforcing s) ccid,
       needEvaluating := stringSet_delete (needEvaluating s) ccid\<rparr>"


subsection \<open>Adding and removing elements\<close>

definition addVariable :: "pm \<Rightarrow> variable \<Rightarrow> pm" where
  "addVariable s vv =
     (if v_id vv \<notin> dom (variables s) then
        (let s1 = s\<lparr>variables := (variables s)(v_id vv \<mapsto> vv)\<rparr>;
             s2 = (if v_pending vv then s1\<lparr>pendingCount := pendingCount s1 + 1\<rparr> else s1);
             stayMethodId = stayMethod (v_id vv);
             stayConstraintId = stayConstraint (v_id vv);
             s3 = s2\<lparr>cgraph := cg_addMethod (cg_addVariable (cgraph s2) (v_id vv))
                                   stayMethodId stayConstraintId [] [v_id vv]\<rparr>;
             s4 = (if v_optional vv = Max then
                     (let g = getPlanner s3
                      in g\<lparr>planner := Some (setMaxStrength (plannerOf g) stayConstraintId)\<rparr>)
                   else if v_optional vv = Min then
                     (let g = getPlanner s3
                      in g\<lparr>planner := Some (setMinStrength (plannerOf g) stayConstraintId)\<rparr>)
                   else s3)
         in recordConstraintChange s4 stayConstraintId)
      else s)"

definition removeVariable :: "pm \<Rightarrow> variable \<Rightarrow> outcome" where
  "removeVariable s vv =
     (if v_id vv \<in> dom (variables s) \<and>
         length (cg_constraintsWhichUse (cgraph s) (v_id vv)) = 0 then
        (let stayConstraintId = stayConstraint (v_id vv);
             s1 = s\<lparr>variables := (variables s)(v_id vv := None),
                    outputVids := (outputVids s)(v_id vv := None)\<rparr>;
             s2 = removeConstraintRecords s1 stayConstraintId;
             s3 = s2\<lparr>cgraph := cg_removeMethod (cgraph s2) (stayMethod (v_id vv))\<rparr>
         in case planner s3 of
              None \<Rightarrow> Fault TypeError s3
            | Some p \<Rightarrow>
                Done (s3\<lparr>planner := Some (removeOptional p stayConstraintId),
                         cgraph := cg_removeVariable (cgraph s3) (v_id vv)\<rparr>))
      else Done s)"

definition addMethod :: "cid \<Rightarrow> pm \<Rightarrow> hdmethod \<Rightarrow> pm" where
  "addMethod ccid s mm =
     (if m_id mm \<notin> dom (methods s) then
        s\<lparr>methods := (methods s)(m_id mm \<mapsto> mm),
          cgraph := cg_addMethod (cgraph s) (m_id mm) ccid (m_inputVars mm) (m_outputs mm)\<rparr>
      else s)"

definition removeMethod :: "pm \<Rightarrow> hdmethod \<Rightarrow> pm" where
  "removeMethod s mm =
     (if m_id mm \<in> dom (methods s) then
        s\<lparr>methods := (methods s)(m_id mm := None),
          cgraph := cg_removeMethod (cgraph s) (m_id mm)\<rparr>
      else s)"

definition addConstraint :: "pm \<Rightarrow> hdconstraint \<Rightarrow> pm" where
  "addConstraint s cc =
     (if c_id cc \<notin> dom (constraints s) then
        (let s1 = s\<lparr>constraints := (constraints s)(c_id cc \<mapsto> cc)\<rparr>;
             s2 = foldl (addMethod (c_id cc)) s1 (c_methods cc);
             s3 = (if c_optional cc = Max then
                     (let g = getPlanner s2
                      in g\<lparr>planner := Some (setMaxStrength (plannerOf g) (c_id cc)),
                           hasOptionals := True\<rparr>)
                   else if c_optional cc = Min then
                     (let g = getPlanner s2
                      in g\<lparr>planner := Some (setMinStrength (plannerOf g) (c_id cc)),
                           hasOptionals := True\<rparr>)
                   else s2)
         in recordConstraintChange s3 (c_id cc))
      else s)"

definition removeConstraint :: "pm \<Rightarrow> hdconstraint \<Rightarrow> outcome" where
  "removeConstraint s cc =
     (if c_id cc \<in> dom (constraints s) then
        (let s1 = s\<lparr>constraints := (constraints s)(c_id cc := None)\<rparr>;
             s2 = removeConstraintRecords s1 (c_id cc);
             s3 = foldl removeMethod s2 (c_methods cc)
         in case sgraph s3 of
              None \<Rightarrow> Fault TypeError s3
            | Some sg \<Rightarrow>
                Done (s3\<lparr>sgraph := Some (sg_unselect sg (c_id cc)),
                         trace := trace s3 @ [MethodScheduled (Some (c_id cc)) None]\<rparr>))
      else Done s)"

definition addOutput :: "pm \<Rightarrow> variable \<Rightarrow> pm" where
  "addOutput s out =
     (let id = v_id out
      in case outputVids s id of
           Some n \<Rightarrow> s\<lparr>outputVids := (outputVids s)(id \<mapsto> n + 1)\<rparr>
         | None \<Rightarrow> s\<lparr>outputVids := (outputVids s)(id \<mapsto> 1)\<rparr>)"

text \<open>\<^verbatim>\<open>this.outputVids[id] > 1\<close> is false when the id is absent (\<^verbatim>\<open>undefined > 1\<close>).\<close>

definition removeOutput :: "pm \<Rightarrow> variable \<Rightarrow> pm" where
  "removeOutput s out =
     (let id = v_id out
      in case outputVids s id of
           Some n \<Rightarrow> (if n > 1 then s\<lparr>outputVids := (outputVids s)(id \<mapsto> n - 1)\<rparr>
                      else s\<lparr>outputVids := (outputVids s)(v_id out := None)\<rparr>)
         | None \<Rightarrow> s\<lparr>outputVids := (outputVids s)(v_id out := None)\<rparr>)"

definition touchEndId :: "touchEnd \<Rightarrow> cid" where
  "touchEndId cc = (case cc of TVariable vv \<Rightarrow> stayConstraint (v_id vv)
                            | TConstraint c \<Rightarrow> c_id c)"

definition addTouchDependency :: "pm \<Rightarrow> touchEnd \<Rightarrow> touchEnd \<Rightarrow> pm" where
  "addTouchDependency s cc1 cc2 =
     (let cid1 = touchEndId cc1; cid2 = touchEndId cc2
      in case map_of (touchDeps s) cid1 of
           Some deps \<Rightarrow> s\<lparr>touchDeps := AList.update cid1 (arraySet_add deps cid2) (touchDeps s)\<rparr>
         | None \<Rightarrow> s\<lparr>touchDeps := AList.update cid1 [cid2] (touchDeps s)\<rparr>)"

definition removeTouchDependency :: "pm \<Rightarrow> touchEnd \<Rightarrow> touchEnd \<Rightarrow> pm" where
  "removeTouchDependency s cc1 cc2 =
     (let cid1 = touchEndId cc1; cid2 = touchEndId cc2
      in case map_of (touchDeps s) cid1 of
           Some deps \<Rightarrow> s\<lparr>touchDeps := AList.update cid1 (arraySet_remove deps cid2) (touchDeps s)\<rparr>
         | None \<Rightarrow> s)"


subsection \<open>Touch promotion\<close>

text \<open>The body of \<^verbatim>\<open>deps.forEach\<close>: \<open>sub\<close> and \<open>visited\<close> are threaded through.\<close>

fun visitDeps :: "(cid \<rightharpoonup> hdconstraint) \<Rightarrow> cid list \<Rightarrow> cid list \<times> stringSet
                    \<Rightarrow> error + (cid list \<times> stringSet)" where
  "visitDeps cs [] (sub, visited) = Inr (sub, visited)"
| "visitDeps cs (dep # deps) (sub, visited) =
     (if dep \<notin> set visited then
        (case cs dep of
           None \<Rightarrow> Inl TypeError
         | Some c \<Rightarrow>
             (if c_optional c \<noteq> Default
              then visitDeps cs deps (sub @ [dep], stringSet_add visited dep)
              else visitDeps cs deps (sub, visited)))
      else visitDeps cs deps (sub, visited))"

text \<open>The inner loop \<^verbatim>\<open>while (i < l)\<close> over one generation of \<^verbatim>\<open>promote\<close>.\<close>

fun visitGeneration :: "(cid \<times> cid list) list \<Rightarrow> (cid \<rightharpoonup> hdconstraint) \<Rightarrow> cid list
                          \<Rightarrow> cid list \<times> stringSet \<Rightarrow> error + (cid list \<times> stringSet)" where
  "visitGeneration td cs [] acc = Inr acc"
| "visitGeneration td cs (vid # vids) acc =
     (case map_of td vid of
        None \<Rightarrow> visitGeneration td cs vids acc
      | Some deps \<Rightarrow>
          (case visitDeps cs deps acc of
             Inl e \<Rightarrow> Inl e
           | Inr acc' \<Rightarrow> visitGeneration td cs vids acc'))"

definition touchUniverse :: "(cid \<times> cid list) list \<Rightarrow> cid set" where
  "touchUniverse td = set (concat (map snd td))"

lemma visitDeps_grows:
  "visitDeps cs deps (sub, vis) = Inr (sub', vis') \<Longrightarrow>
   set vis \<subseteq> set vis' \<and> set sub \<subseteq> set sub' \<and>
   set sub' - set sub \<subseteq> (set deps - set vis) \<inter> set vis'"
proof (induction cs deps "(sub, vis)" arbitrary: sub vis rule: visitDeps.induct)
  case (1 cs sub visited)
  then show ?case by simp
next
  case (2 cs dep deps sub visited)
  show ?case
  proof (cases "dep \<in> set visited")
    case True
    with 2 show ?thesis by (auto split: if_splits)
  next
    case False
    show ?thesis
    proof (cases "cs dep")
      case None
      with False 2 show ?thesis by simp
    next
      case (Some c)
      show ?thesis
      proof (cases "c_optional c \<noteq> Default")
        case True
        with False Some 2(4) have
          r: "visitDeps cs deps (sub @ [dep], stringSet_add visited dep) = Inr (sub', vis')"
          by simp
        from 2(1)[OF False Some True r] False show ?thesis
          by (auto simp: stringSet_add_def)
      next
        case F2: False
        with False Some 2(4) have r: "visitDeps cs deps (sub, visited) = Inr (sub', vis')"
          by simp
        from 2(2)[OF False Some _ r] F2 show ?thesis by auto
      qed
    qed
  qed
qed


lemma visitGeneration_grows:
  "visitGeneration td cs gen (sub, vis) = Inr (sub', vis') \<Longrightarrow>
   set vis \<subseteq> set vis' \<and> set sub \<subseteq> set sub' \<and>
   set sub' - set sub \<subseteq> (touchUniverse td - set vis) \<inter> set vis'"
proof (induction gen arbitrary: sub vis)
  case Nil
  then show ?case by simp
next
  case (Cons vid vids)
  show ?case
  proof (cases "map_of td vid")
    case None
    with Cons show ?thesis by simp
  next
    case (Some deps)
    from Cons.prems Some obtain sub1 vis1 where
      d: "visitDeps cs deps (sub, vis) = Inr (sub1, vis1)" and
      g: "visitGeneration td cs vids (sub1, vis1) = Inr (sub', vis')"
      by (auto split: sum.splits)
    have "set deps \<subseteq> touchUniverse td"
      using map_of_SomeD[OF Some] by (force simp: touchUniverse_def)
    with visitDeps_grows[OF d] Cons.IH[OF g] show ?thesis by blast
  qed
qed

function promoteLoop :: "(cid \<times> cid list) list \<Rightarrow> (cid \<rightharpoonup> hdconstraint)
     \<Rightarrow> (cid \<Rightarrow> cid \<Rightarrow> int) \<Rightarrow> cid list \<Rightarrow> nat \<Rightarrow> stringSet \<Rightarrow> error + cid list" where
  "promoteLoop td cs descending promote i visited =
     (if i < length promote then
        (case visitGeneration td cs (drop i promote) ([], visited) of
           Inl e \<Rightarrow> Inl e
         | Inr (sub, visited') \<Rightarrow>
             promoteLoop td cs descending (promote @ sortBy descending sub)
               (length promote) visited')
      else Inr promote)"
  by pat_completeness auto
termination
proof (relation "measures [\<lambda>(td, cs, d, promote, i, visited). card (touchUniverse td - set visited),
                           \<lambda>(td, cs, d, promote, i, visited). length promote - i]", goal_cases)
  case 1
  show ?case by simp
next
  case (2 td cs descending promote i visited x2 sub visited')
  then have g: "visitGeneration td cs (drop i promote) ([], visited) = Inr (sub, visited')"
    by simp
  note gr = visitGeneration_grows[OF g]
  have fin: "finite (touchUniverse td - set visited)" by (simp add: touchUniverse_def)
  show ?case
  proof (cases "sub = []")
    case True
    have "touchUniverse td - set visited' \<subseteq> touchUniverse td - set visited" using gr by blast
    then have "card (touchUniverse td - set visited') \<le> card (touchUniverse td - set visited)"
      using fin by (rule card_mono[rotated])
    with True 2(1) show ?thesis by (auto simp: sortBy_def)
  next
    case False
    then obtain x where "x \<in> set sub" by (cases sub) auto
    with gr have "x \<in> touchUniverse td - set visited" "x \<in> set visited'" by auto
    with gr have "touchUniverse td - set visited' \<subset> touchUniverse td - set visited" by blast
    then have "card (touchUniverse td - set visited') < card (touchUniverse td - set visited)"
      using fin by (rule psubset_card_mono[rotated])
    then show ?thesis by simp
  qed
qed


text \<open>The last loop of \<^verbatim>\<open>doPromotions\<close>, over the ids in the order it takes them
  (the reverse of \<^verbatim>\<open>promote\<close>).\<close>

definition isSelected :: "pm \<Rightarrow> cid \<Rightarrow> bool" where
  "isSelected s c = (case sgraph s of None \<Rightarrow> False
                                    | Some sg \<Rightarrow> sg_selectedForConstraint sg c \<noteq> None)"

definition promoteOne :: "pm \<Rightarrow> cid \<Rightarrow> pm" where
  "promoteOne s c =
     (let s1 = s\<lparr>planner := Some (setMaxStrength (plannerOf s) c)\<rparr>
      in if \<not> isSelected s1 c then recordConstraintChange s1 c else s1)"

definition doPromotions :: "pm \<Rightarrow> cid \<Rightarrow> outcome" where
  "doPromotions s originalVid =
     (let s0 = getPlanner s;
          p = plannerOf s0;
          descending = (\<lambda>cid1 cid2. compare p cid2 cid1)
      in case promoteLoop (touchDeps s0) (constraints s0) descending
                [originalVid] 0 [originalVid] of
           Inl e \<Rightarrow> Fault e s0
         | Inr promote \<Rightarrow> Done (foldl promoteOne s0 (rev promote)))"

definition variableTouched :: "pm \<Rightarrow> variable \<Rightarrow> outcome" where
  "variableTouched s vv = doPromotions s (stayConstraint (v_id vv))"

definition variableChanged :: "pm \<Rightarrow> variable \<Rightarrow> outcome" where
  "variableChanged s vv =
     (let stayConstraintId = stayConstraint (v_id vv)
      in andThen (doPromotions s stayConstraintId)
           (\<lambda>s1. Done (recordVariableChange s1 stayConstraintId)))"

subsection \<open>Variable events\<close>

datatype variableEventType = touched | changed | pending | settled

record variableEvent =
  ev_type :: variableEventType
  ev_vv :: variable

definition onNextVariableChange :: "pm \<Rightarrow> variableEvent \<Rightarrow> outcome" where
  "onNextVariableChange s event =
     (case ev_type event of
        touched \<Rightarrow> variableTouched s (ev_vv event)
      | changed \<Rightarrow> variableChanged s (ev_vv event)
      | pending \<Rightarrow> Done (s\<lparr>pendingCount := pendingCount s + 1\<rparr>)
      | settled \<Rightarrow>
          Done (if pendingCount s > 0 then
                  (let s1 = s\<lparr>pendingCount := pendingCount s - 1\<rparr>
                   in if pendingCount s1 = 0 \<and> \<not> isUpdateNeeded s1
                      then s1\<lparr>solved := True\<rparr> else s1)
                else s))"

subsection \<open>The update\<close>

text \<open>Modelled from the spec: \<^verbatim>\<open>m.Context.reportUpdates\<close> is not under src/. The
  context hands over the adds and removes made since its last report.\<close>

definition reportUpdates :: "pm \<Rightarrow> ctxid \<Rightarrow> (element list \<times> element list) \<times> pm" where
  "reportUpdates s ctx =
     (ctxChanges s ctx,
      s\<lparr>ctxChanges := (ctxChanges s)(ctx := ([], [])),
        trace := trace s @ [ReportedUpdates ctx]\<rparr>)"

fun applyRemoves :: "pm \<Rightarrow> element list \<Rightarrow> outcome" where
  "applyRemoves s [] = Done s"
| "applyRemoves s (el # els) =
     andThen (case el of
                EConstraint c \<Rightarrow> removeConstraint s c
              | EOutput v \<Rightarrow> Done (removeOutput s v)
              | ETouchDep a b \<Rightarrow> Done (removeTouchDependency s a b)
              | EVariable v \<Rightarrow> Done s)
             (\<lambda>s'. applyRemoves s' els)"

definition applyAdd :: "pm \<Rightarrow> element \<Rightarrow> pm" where
  "applyAdd s el =
     (case el of
        EConstraint c \<Rightarrow> addConstraint s c
      | EOutput v \<Rightarrow> addOutput s v
      | ETouchDep a b \<Rightarrow> addTouchDependency s a b
      | EVariable v \<Rightarrow> s)"

text \<open>The loop of \<^verbatim>\<open>updateModel\<close>. Its counters \<^verbatim>\<open>i\<close> and \<^verbatim>\<open>l\<close> are function-scoped
  (\<^verbatim>\<open>var\<close>), and the two inner loops use the same two variables: when the inner
  loops are done, \<^verbatim>\<open>i\<close> and \<^verbatim>\<open>l\<close> both hold the number of adds, and the outer loop
  goes on with \<^verbatim>\<open>++i\<close> from there.\<close>

function updateModelLoop :: "pm \<Rightarrow> nat \<Rightarrow> nat \<Rightarrow> outcome" where
  "updateModelLoop s i l =
     (if i < l then
        (if i < length (needUpdating s) then
           (let ctx = needUpdating s ! i;
                (updates, s1) = reportUpdates s ctx;
                adds = fst updates;
                removes = snd updates
            in case applyRemoves s1 removes of
                 Fault e t \<Rightarrow> Fault e t
               | Done s2 \<Rightarrow>
                   updateModelLoop (foldl applyAdd s2 adds) (length adds + 1) (length adds))
         else Fault TypeError s)
      else Done s)"
  by pat_completeness auto
termination
  by (relation "measure (\<lambda>(s, i, l). l - i)") auto

definition updateModel :: "pm \<Rightarrow> outcome" where
  "updateModel s = updateModelLoop s 0 (length (needUpdating s))"

text \<open>The scan of \<^verbatim>\<open>topomids\<close> in \<^verbatim>\<open>plan\<close>, over the method ids in the order it
  takes them (the reverse of \<^verbatim>\<open>topomids\<close>). Modelled from the spec: \<^verbatim>\<open>topograph\<close> is not
  under src/; the constraint of a method in the topograph is its constraint in
  the constraint graph.\<close>

fun collectPriorities :: "pm \<Rightarrow> mid list \<Rightarrow> cid list \<Rightarrow> error + cid list" where
  "collectPriorities s [] priorities = Inr priorities"
| "collectPriorities s (m # ms) priorities =
     (case cg_constraintForMethod (cgraph s) m of
        None \<Rightarrow> Inl TypeError
      | Some c \<Rightarrow>
          (if isStayConstraint c then collectPriorities s ms (priorities @ [c])
           else (case constraints s c of
                   None \<Rightarrow> Inl TypeError
                 | Some cc \<Rightarrow>
                     (if c_optional cc \<noteq> Default
                      then collectPriorities s ms (priorities @ [c])
                      else collectPriorities s ms priorities))))"

definition reevaluateIfEmergingSource :: "sgraph \<Rightarrow> pm \<Rightarrow> vid \<Rightarrow> outcome" where
  "reevaluateIfEmergingSource sg s v =
     (let stayConstraintId = stayConstraint v
      in if sg_selectedForConstraint sg stayConstraintId \<noteq> None then
           (case variables s v of
              None \<Rightarrow> Fault TypeError s
            | Some vv \<Rightarrow>
                (if \<not> v_source vv \<and> stayConstraintId \<notin> set (needEvaluating s) then
                   Done (s\<lparr>trace := trace s @ [Promised v],
                           needEvaluating := stringSet_add (needEvaluating s) stayConstraintId\<rparr>)
                 else Done s))
         else Done s)"

definition updateSourceStatus :: "sgraph \<Rightarrow> pm \<Rightarrow> vid \<Rightarrow> outcome" where
  "updateSourceStatus sg s v =
     (case variables s v of
        None \<Rightarrow> Fault TypeError s
      | Some vv \<Rightarrow>
          Done (s\<lparr>variables := (variables s)
                   (v \<mapsto> vv\<lparr>v_source := (sg_selectedForConstraint sg (stayConstraint v) \<noteq> None)\<rparr>)\<rparr>))"

fun forEachOutcome :: "(pm \<Rightarrow> 'a \<Rightarrow> outcome) \<Rightarrow> pm \<Rightarrow> 'a list \<Rightarrow> outcome" where
  "forEachOutcome f s [] = Done s"
| "forEachOutcome f s (x # xs) = andThen (f s x) (\<lambda>s'. forEachOutcome f s' xs)"

definition plan :: "env \<Rightarrow> pm \<Rightarrow> outcome" where
  "plan E s =
     (let cids = needEnforcing s
      in if length cids > 0 then
           (case planner s of
              None \<Rightarrow> Fault TypeError s
            | Some p \<Rightarrow>
                (let (ok, p') = env_plan E p (cgraph s) (sgraph s) cids;
                     s0 = s\<lparr>planner := Some p'\<rparr>
                 in if ok then
                      (case pl_sgraph p' of
                         None \<Rightarrow> Fault TypeError (s0\<lparr>sgraph := None\<rparr>)
                       | Some sg \<Rightarrow>
                           (let tm = env_toposort E (cgraph s0) sg p';
                                s1 = s0\<lparr>sgraph := Some sg, topomids := Some tm\<rparr>
                            in case collectPriorities s1 (rev tm) [] of
                                 Inl e \<Rightarrow> Fault e s1
                               | Inr priorities \<Rightarrow>
                                   (let s2 = s1\<lparr>planner := Some (setOptionals p' priorities)\<rparr>;
                                        s3 = s2\<lparr>needEvaluating :=
                                                   foldl stringSet_add (needEvaluating s2) cids\<rparr>
                                    in andThen
                                         (if forwardEmergingSources E
                                          then forEachOutcome (reevaluateIfEmergingSource sg) s3
                                                 (cg_variables sg)
                                          else Done s3)
                                         (\<lambda>s4. andThen
                                            (forEachOutcome (updateSourceStatus sg) s4
                                               (cg_variables sg))
                                            (\<lambda>s5. Done (s5\<lparr>needEnforcing := []\<rparr>))))))
                    else Done (s0\<lparr>needEnforcing := []\<rparr>)))
         else Done s)"

definition commitPromise :: "pm \<Rightarrow> vid \<Rightarrow> outcome" where
  "commitPromise s v =
     (case variables s v of
        None \<Rightarrow> Fault TypeError s
      | Some vv \<Rightarrow> Done (s\<lparr>trace := trace s @ [Committed v]\<rparr>))"

definition activate :: "pm \<Rightarrow> mid \<Rightarrow> outcome" where
  "activate s m =
     (case methods s m of
        None \<Rightarrow> Fault TypeError s
      | Some mm \<Rightarrow>
          Done (s\<lparr>trace := trace s @
                   [Activated m, MethodScheduled (cg_constraintForMethod (cgraph s) m) (Some m)]\<rparr>))"

definition evaluate :: "pm \<Rightarrow> outcome" where
  "evaluate s =
     (case sgraph s of
        None \<Rightarrow> Fault TypeError s
      | Some sg \<Rightarrow>
          (let mids = List.map_filter (sg_selectedForConstraint sg) (needEvaluating s);
               downstreamVids = nodesDownstreamOtherType sg mids
           in andThen (forEachOutcome commitPromise s downstreamVids)
                (\<lambda>s1. if length mids > 0 then
                         (case topomids s1 of
                            None \<Rightarrow> Fault TypeError s1
                          | Some tm \<Rightarrow>
                              (let downstreamMids = filter (\<lambda>m. \<not> isStayMethod m)
                                                      (nodesDownstreamSameType sg mids);
                                   scheduledMids = filter (\<lambda>m. m \<in> set downstreamMids) tm
                               in andThen (forEachOutcome activate s1 scheduledMids)
                                    (\<lambda>s2. andThen (forEachOutcome commitPromise s2 downstreamVids)
                                       (\<lambda>s3. Done (s3\<lparr>needEvaluating := []\<rparr>)))))
                       else Done s1)))"

definition update :: "env \<Rightarrow> pm \<Rightarrow> outcome" where
  "update E s =
     (if isUpdateNeeded s then
        andThen (updateModel (s\<lparr>isUpdateNeeded := False\<rparr>))
          (\<lambda>s1. andThen (plan E s1)
             (\<lambda>s2. andThen (evaluate s2)
                (\<lambda>s3. Done (if pendingCount s3 = 0 then s3\<lparr>solved := True\<rparr> else s3))))
      else Done s)"



subsection \<open>The output counts as functions on the registry\<close>

definition incrCount :: "vid \<Rightarrow> (vid \<rightharpoonup> nat) \<Rightarrow> (vid \<rightharpoonup> nat)" where
  "incrCount i F = F(i \<mapsto> (case F i of None \<Rightarrow> 1 | Some n \<Rightarrow> n + 1))"

definition decrCount :: "vid \<Rightarrow> (vid \<rightharpoonup> nat) \<Rightarrow> (vid \<rightharpoonup> nat)" where
  "decrCount i F = (case F i of Some n \<Rightarrow> (if n > 1 then F(i \<mapsto> n - 1) else F(i := None))
                             | None \<Rightarrow> F(i := None))"

subsection \<open>States that differ in the trace and the evaluation set only\<close>


section \<open>Concrete models\<close>

text \<open>Two variables \<open>a\<close> and \<open>b\<close>, and two required constraints that each compute \<open>b\<close>
  from \<open>a\<close>; both cannot be enforced together.\<close>

definition v_a :: variable where
  "v_a = \<lparr>v_id = ''a'', v_optional = Max, v_pending = False, v_source = False\<rparr>"

definition v_b :: variable where
  "v_b = \<lparr>v_id = ''b'', v_optional = Max, v_pending = False, v_source = False\<rparr>"

definition m_ab :: hdmethod where
  "m_ab = \<lparr>m_id = ''m1'', m_inputVars = [''a''], m_outputs = [''b'']\<rparr>"

definition c_ab :: hdconstraint where
  "c_ab = \<lparr>c_id = ''c1'', c_methods = [m_ab], c_optional = Default\<rparr>"



text \<open>A planner type for the concrete models (the constructor of the property model
  takes any planner type). It selects greedily, the required constraints before
  the stay constraints, the first method of a constraint whose outputs no selected
  method writes, and fails when a required constraint is left without a method.\<close>

fun greedySelect :: "cg_method list \<Rightarrow> cg_method list \<Rightarrow> cg_method list" where
  "greedySelect sel [] = sel"
| "greedySelect sel (e # es) =
     (if cm_cid e \<in> cm_cid ` set sel \<or>
         (\<exists>v \<in> set (cm_outputs e). v \<in> set (concat (map cm_outputs sel)))
      then greedySelect sel es
      else greedySelect (sel @ [e]) es)"

definition greedyPlan :: "planner \<Rightarrow> cgraph \<Rightarrow> sgraph option \<Rightarrow> cid list \<Rightarrow> bool \<times> planner" where
  "greedyPlan p cg prev cids =
     (let required = filter (\<lambda>e. \<not> isStayMethod (cm_id e)) (cg_methods cg);
          stays = filter (\<lambda>e. isStayMethod (cm_id e)) (cg_methods cg);
          sel = greedySelect [] (required @ stays)
      in if \<forall>e \<in> set required. cm_cid e \<in> cm_cid ` set sel
         then (True, p\<lparr>pl_sgraph := Some \<lparr>cg_variables = cg_variables cg, cg_methods = sel\<rparr>\<rparr>)
         else (False, p))"

text \<open>The evaluation order for the concrete models: the selected stay methods,
  which read nothing, the stronger first, and then the other selected methods.\<close>

definition staysFirst :: "cgraph \<Rightarrow> sgraph \<Rightarrow> planner \<Rightarrow> mid list" where
  "staysFirst cg sg p =
     map cm_id (sortBy (\<lambda>e1 e2. compare p (cm_cid e2) (cm_cid e1))
                  (filter (\<lambda>e. isStayMethod (cm_id e)) (cg_methods sg)) @
                filter (\<lambda>e. \<not> isStayMethod (cm_id e)) (cg_methods sg))"

definition exampleEnv :: env where
  "exampleEnv = \<lparr>env_plan = greedyPlan, env_toposort = staysFirst,
                  forwardEmergingSources = False\<rparr>"

text \<open>The model with the two variables, before and after its first update.\<close>

definition st_vars :: pm where
  "st_vars = addVariable (addVariable (newPropertyModel True) v_a) v_b"

definition st_solved :: pm where
  "st_solved = stateOf (update exampleEnv st_vars)"

text \<open>A context reports the constraint \<open>c1\<close> as added.\<close>

definition st_ctx :: pm where
  "st_ctx = recordContextChange
              (st_solved\<lparr>ctxChanges := (ctxChanges st_solved)(''ctx1'' := ([EConstraint c_ab], []))\<rparr>)
              ''ctx1''"



text \<open>Two contexts have changes to report: an output each.\<close>

definition st_two :: pm where
  "st_two = recordContextChange
              (recordContextChange
                 (st_solved\<lparr>ctxChanges := (ctxChanges st_solved)
                     (''ctx1'' := ([EOutput v_a], []), ''ctx2'' := ([EOutput v_b], []))\<rparr>)
                 ''ctx1'')
              ''ctx2''"

text \<open>A touch dependency from the variable \<open>a\<close> to the variable \<open>b\<close>.\<close>

definition st_touch :: pm where
  "st_touch = addTouchDependency st_solved (TVariable v_a) (TVariable v_b)"

section \<open>The stay methods of the registered variables\<close>

text \<open>The method that \<^verbatim>\<open>addVariable\<close> adds to the constraint graph for a variable:
  the stay method, of the stay constraint, with no input and the variable as its
  only output.\<close>

definition stayEntry :: "vid \<Rightarrow> cg_method" where
  "stayEntry v = \<lparr>cm_id = stayMethod v, cm_cid = stayConstraint v,
                  cm_inputs = [], cm_outputs = [v]\<rparr>"









section \<open>Properties\<close>

subsection \<open>Outputs\<close>

lemma addOutput_incrCount:
  "addOutput s v = s\<lparr>outputVids := incrCount (v_id v) (outputVids s)\<rparr>"
  by (simp add: addOutput_def incrCount_def Let_def split: option.splits)

lemma removeOutput_decrCount:
  "removeOutput s v = s\<lparr>outputVids := decrCount (v_id v) (outputVids s)\<rparr>"
  by (simp add: removeOutput_def decrCount_def Let_def split: option.splits)









text \<open>C10. \<^verbatim>\<open>addOutput\<close> and \<^verbatim>\<open>removeOutput\<close> change nothing but the output counts:
  \<^verbatim>\<open>solved\<close>, the update flags, the constraint graph, the solution graph, the
  planner and the three pending sets are as before.\<close>

theorem output_frame:
  "addOutput s v = s\<lparr>outputVids := outputVids (addOutput s v)\<rparr>
   \<and> removeOutput s v = s\<lparr>outputVids := outputVids (removeOutput s v)\<rparr>
   \<and> solved (addOutput s v) = solved s \<and> solved (removeOutput s v) = solved s
   \<and> isUpdateNeeded (addOutput s v) = isUpdateNeeded s
   \<and> isUpdateNeeded (removeOutput s v) = isUpdateNeeded s
   \<and> isUpdateScheduled (addOutput s v) = isUpdateScheduled s
   \<and> isUpdateScheduled (removeOutput s v) = isUpdateScheduled s
   \<and> cgraph (addOutput s v) = cgraph s \<and> cgraph (removeOutput s v) = cgraph s
   \<and> sgraph (addOutput s v) = sgraph s \<and> sgraph (removeOutput s v) = sgraph s
   \<and> planner (addOutput s v) = planner s \<and> planner (removeOutput s v) = planner s
   \<and> needUpdating (addOutput s v) = needUpdating s
   \<and> needUpdating (removeOutput s v) = needUpdating s
   \<and> needEnforcing (addOutput s v) = needEnforcing s
   \<and> needEnforcing (removeOutput s v) = needEnforcing s
   \<and> needEvaluating (addOutput s v) = needEvaluating s
   \<and> needEvaluating (removeOutput s v) = needEvaluating s"
  by (simp add: addOutput_incrCount removeOutput_decrCount)

subsection \<open>Outcomes and the frame of the evaluation\<close>

lemma andThen_Done [simp]: "andThen (Done s) f = f s"
  by (simp add: andThen_def)

lemma andThen_Fault [simp]: "andThen (Fault e s) f = Fault e s"
  by (simp add: andThen_def)

lemma stateOf_simps [simp]: "stateOf (Done s) = s" "stateOf (Fault e s) = s"
  by (simp_all add: stateOf_def)

lemma isDone_simps [simp]: "isDone (Done s) = True" "isDone (Fault e s) = False"
  by (simp_all add: isDone_def)













text \<open>The loop of \<^verbatim>\<open>updateModel\<close> ends after the context it starts with: the
  counters it shares with the inner loops are past the bound when these are
  done.\<close>

lemma updateModelLoop_done: "\<not> i < l \<Longrightarrow> updateModelLoop s i l = Done s"
  by (subst updateModelLoop.simps) simp

lemma updateModelLoop_first:
  assumes "i < l" and "i < length (needUpdating s)"
  shows "updateModelLoop s i l =
           andThen (applyRemoves (snd (reportUpdates s (needUpdating s ! i)))
                      (snd (ctxChanges s (needUpdating s ! i))))
             (\<lambda>s2. Done (foldl applyAdd s2 (fst (ctxChanges s (needUpdating s ! i)))))"
proof -
  have "updateModelLoop s i l =
          (case applyRemoves (snd (reportUpdates s (needUpdating s ! i)))
                  (snd (ctxChanges s (needUpdating s ! i))) of
             Fault e t \<Rightarrow> Fault e t
           | Done s2 \<Rightarrow>
               updateModelLoop (foldl applyAdd s2 (fst (ctxChanges s (needUpdating s ! i))))
                 (length (fst (ctxChanges s (needUpdating s ! i))) + 1)
                 (length (fst (ctxChanges s (needUpdating s ! i)))))"
    using assms
    by (subst updateModelLoop.simps)
       (simp add: reportUpdates_def Let_def del: updateModelLoop.simps)
  also have "\<dots> = andThen (applyRemoves (snd (reportUpdates s (needUpdating s ! i)))
                      (snd (ctxChanges s (needUpdating s ! i))))
             (\<lambda>s2. Done (foldl applyAdd s2 (fst (ctxChanges s (needUpdating s ! i)))))"
    by (simp add: andThen_def updateModelLoop_done del: updateModelLoop.simps
          split: outcome.splits)
  finally show ?thesis .
qed

lemma updateModel_first_only:
  assumes "needUpdating s \<noteq> []"
  shows "updateModel s =
           andThen (applyRemoves (snd (reportUpdates s (needUpdating s ! 0)))
                      (snd (ctxChanges s (needUpdating s ! 0))))
             (\<lambda>s2. Done (foldl applyAdd s2 (fst (ctxChanges s (needUpdating s ! 0)))))"
  unfolding updateModel_def using assms by (intro updateModelLoop_first) simp_all

subsection \<open>The update\<close>

lemma recordChange_flags: "\<not> solved (recordChange s) \<and> isUpdateNeeded (recordChange s)"
  by (simp add: recordChange_def scheduleUpdate_def Let_def)

text \<open>The \<open>settled\<close> case of \<^verbatim>\<open>onNextVariableChange\<close> sets \<^verbatim>\<open>solved\<close> to true only
  with \<^verbatim>\<open>pendingCount == 0\<close> and no update needed.\<close>

lemma settled_sets_solved:
  "onNextVariableChange s \<lparr>ev_type = settled, ev_vv = vv\<rparr> = Done t \<Longrightarrow>
   solved t \<Longrightarrow> \<not> solved s \<Longrightarrow> pendingCount t = 0 \<and> \<not> isUpdateNeeded t"
  by (auto simp: onNextVariableChange_def Let_def split: if_splits)

text \<open>C2. The specification: \<^verbatim>\<open>solved\<close> is set to true only when \<^verbatim>\<open>pendingCount\<close> is 0 and
  \<^verbatim>\<open>isUpdateNeeded\<close> is false. In the model \<open>st_ctx\<close> a context has reported the
  constraint \<open>c1\<close> as added. \<^verbatim>\<open>update\<close> clears \<^verbatim>\<open>isUpdateNeeded\<close>, \<^verbatim>\<open>updateModel\<close> adds
  the constraint, which records a change and raises the flag again, and the update
  ends by setting \<^verbatim>\<open>solved\<close> to true on \<^verbatim>\<open>pendingCount == 0\<close> alone: the model is
  left solved with an update needed and scheduled.\<close>

theorem solved_with_update_needed:
  "pendingCount st_ctx = 0 \<and> isUpdateNeeded st_ctx \<and> \<not> solved st_ctx
   \<and> isDone (update exampleEnv st_ctx)
   \<and> solved (stateOf (update exampleEnv st_ctx))
   \<and> isUpdateNeeded (stateOf (update exampleEnv st_ctx))
   \<and> isUpdateScheduled (stateOf (update exampleEnv st_ctx))"
  by code_simp

text \<open>C4. The specification: every context queued in \<^verbatim>\<open>needUpdating\<close> reports its updates
  once during an update, and none remains queued afterwards. In the model
  \<open>st_two\<close> two contexts are queued, each with an output to add. The update asks the
  first one only, the second context's output is not added and its changes stay
  unreported, and both contexts are still queued afterwards.\<close>

theorem second_context_not_updated:
  "needUpdating st_two = [''ctx1'', ''ctx2'']
   \<and> ctxChanges st_two ''ctx2'' = ([EOutput v_b], [])
   \<and> isDone (update exampleEnv st_two)
   \<and> trace (stateOf (update exampleEnv st_two)) = trace st_two @ [ReportedUpdates ''ctx1'']
   \<and> needUpdating (stateOf (update exampleEnv st_two)) = [''ctx1'', ''ctx2'']
   \<and> ctxChanges (stateOf (update exampleEnv st_two)) ''ctx2'' = ([EOutput v_b], [])
   \<and> outputVids (stateOf (update exampleEnv st_two)) (v_id v_a) = Some 1
   \<and> outputVids (stateOf (update exampleEnv st_two)) (v_id v_b) = None"
  by code_simp





subsection \<open>Removing a constraint or a variable\<close>

lemma foldl_removeMethod_sgraph: "sgraph (foldl removeMethod s ms) = sgraph s"
  by (induction ms arbitrary: s) (simp_all add: removeMethod_def)

lemma removeConstraint_null_sgraph:
  "c_id cc \<in> dom (constraints s) \<Longrightarrow> sgraph s = None \<Longrightarrow> \<not> isDone (removeConstraint s cc)"
  by (simp add: removeConstraint_def Let_def isDone_def foldl_removeMethod_sgraph
        removeConstraintRecords_def)

text \<open>C7. The specification: \<^verbatim>\<open>removeConstraint\<close> on an added constraint never faults, also
  while \<^verbatim>\<open>getSGraph()\<close> is null. The constraint \<open>c1\<close> is added to the model with
  the variables \<open>a\<close> and \<open>b\<close> and removed before the first update: the solution
  graph is null, \<^verbatim>\<open>this.sgraph.selectMethod\<close> raises a TypeError, and the
  constraint is already deleted from the registry when it does.\<close>

theorem removeConstraint_before_first_update:
  "constraints (addConstraint st_vars c_ab) (c_id c_ab) = Some c_ab
   \<and> sgraph (addConstraint st_vars c_ab) = None
   \<and> \<not> isDone (removeConstraint (addConstraint st_vars c_ab) c_ab)
   \<and> constraints (stateOf (removeConstraint (addConstraint st_vars c_ab) c_ab)) (c_id c_ab) = None"
  by code_simp

text \<open>C6. \<^verbatim>\<open>removeVariable\<close> of a registered variable that a method of a
  constraint, other than its own stay method, reads or writes: the list of the
  constraints which use the variable is not empty, and the call returns without
  an error and without any change to the model.\<close>

theorem removeVariable_in_use:
  assumes "v_id vv \<in> dom (variables s)"
    and "e \<in> set (cg_methods (cgraph s))" and "\<not> isStayMethod (cm_id e)"
    and "v_id vv \<in> set (cm_inputs e) \<or> v_id vv \<in> set (cm_outputs e)"
  shows "cg_constraintsWhichUse (cgraph s) (v_id vv) \<noteq> [] \<and> removeVariable s vv = Done s"
proof -
  have "cm_cid e \<in> set (cg_constraintsWhichUse (cgraph s) (v_id vv))"
    using assms(2-4) by (auto simp: cg_constraintsWhichUse_def)
  then have "cg_constraintsWhichUse (cgraph s) (v_id vv) \<noteq> []" by auto
  then show ?thesis by (simp add: removeVariable_def)
qed

text \<open>C6 at the model with \<open>a\<close>, \<open>b\<close> and the constraint \<open>c1\<close>, for the variable \<open>a\<close>.\<close>

theorem removeVariable_in_use_witness:
  "v_id v_a \<in> dom (variables (addConstraint st_vars c_ab))
   \<and> \<lparr>cm_id = ''m1'', cm_cid = ''c1'', cm_inputs = [''a''], cm_outputs = [''b'']\<rparr>
        \<in> set (cg_methods (cgraph (addConstraint st_vars c_ab)))
   \<and> \<not> isStayMethod ''m1''
   \<and> removeVariable (addConstraint st_vars c_ab) v_a = Done (addConstraint st_vars c_ab)"
proof -
  define e where "e = \<lparr>cm_id = ''m1'', cm_cid = ''c1'', cm_inputs = [''a''], cm_outputs = [''b'']\<rparr>"
  have h1: "v_id v_a \<in> dom (variables (addConstraint st_vars c_ab))" by code_simp
  have h2: "e \<in> set (cg_methods (cgraph (addConstraint st_vars c_ab)))"
    unfolding e_def by code_simp
  have h3: "\<not> isStayMethod (cm_id e)" unfolding e_def by code_simp
  have h4: "v_id v_a \<in> set (cm_inputs e) \<or> v_id v_a \<in> set (cm_outputs e)"
    unfolding e_def by code_simp
  have h3': "\<not> isStayMethod ''m1''" using h3 by (simp add: e_def)
  from removeVariable_in_use[OF h1 h2 h3 h4]
  have "removeVariable (addConstraint st_vars c_ab) v_a = Done (addConstraint st_vars c_ab)"
    by blast
  then show ?thesis using h1 h2 h3' unfolding e_def by blast
qed

subsection \<open>Touching a variable\<close>

text \<open>C1. The specification: a touch promotes the stay constraint of the variable and the
  constraints reached over the touch dependencies. In the model \<open>st_touch\<close> the
  variable \<open>a\<close> has a touch dependency onto the variable \<open>b\<close>, which is
  registered. \<^verbatim>\<open>doPromotions\<close> looks the stay constraint of \<open>b\<close> up in
  \<^verbatim>\<open>this.constraints\<close>, where no stay constraint is, and raises a TypeError before
  any promotion: the planner and \<^verbatim>\<open>needEnforcing\<close> are as before.\<close>

theorem touch_onto_variable_faults:
  "touchDeps st_touch = [(stayConstraint (v_id v_a), [stayConstraint (v_id v_b)])]
   \<and> variables st_touch (v_id v_b) \<noteq> None
   \<and> \<not> isDone (variableTouched st_touch v_a)
   \<and> planner (stateOf (variableTouched st_touch v_a)) = planner st_touch
   \<and> needEnforcing (stateOf (variableTouched st_touch v_a)) = needEnforcing st_touch"
  by code_simp

lemma set_insertBy: "set (insertBy f x ys) = insert x (set ys)"
  by (induction ys) auto

lemma set_sortBy: "set (sortBy f xs) = set xs"
  by (induction xs) (simp_all add: sortBy_def set_insertBy)

lemma distinct_insertBy: "distinct (insertBy f x ys) \<longleftrightarrow> x \<notin> set ys \<and> distinct ys"
  by (induction ys) (auto simp: set_insertBy)

lemma distinct_sortBy: "distinct (sortBy f xs) \<longleftrightarrow> distinct xs"
proof (induction xs)
  case Nil
  show ?case by (simp add: sortBy_def)
next
  case (Cons x xs)
  have "sortBy f (x # xs) = insertBy f x (sortBy f xs)" by (simp add: sortBy_def)
  then show ?case using Cons by (simp add: distinct_insertBy set_sortBy)
qed

lemma visitDeps_sound:
  "visitDeps cs deps (sub, vis) = Inr (sub', vis') \<Longrightarrow>
   distinct sub \<Longrightarrow> set sub \<subseteq> set vis \<Longrightarrow>
   distinct sub' \<and> set sub' \<subseteq> set vis' \<and> set vis' = set vis \<union> set sub' \<and>
   (\<forall>x \<in> set sub' - set sub. x \<notin> set vis \<and> (\<exists>c. cs x = Some c \<and> c_optional c \<noteq> Default))"
proof (induction cs deps "(sub, vis)" arbitrary: sub vis rule: visitDeps.induct)
  case (1 cs sub visited)
  then show ?case by auto
next
  case (2 cs dep deps sub visited)
  show ?case
  proof (cases "dep \<in> set visited")
    case True
    with "2.prems" have r: "visitDeps cs deps (sub, visited) = Inr (sub', vis')" by simp
    from "2.hyps"(3)[OF _ r "2.prems"(2,3)] True show ?thesis by simp
  next
    case False
    show ?thesis
    proof (cases "cs dep")
      case None
      with False "2.prems" show ?thesis by simp
    next
      case (Some c)
      show ?thesis
      proof (cases "c_optional c \<noteq> Default")
        case True
        with False Some "2.prems"(1) have
          r: "visitDeps cs deps (sub @ [dep], stringSet_add visited dep) = Inr (sub', vis')"
          by simp
        have d: "distinct (sub @ [dep])" using "2.prems"(2,3) False by auto
        have s: "set (sub @ [dep]) \<subseteq> set (stringSet_add visited dep)"
          using "2.prems"(3) False by (auto simp: stringSet_add_def)
        have "dep \<in> set sub'" using visitDeps_grows[OF r] by auto
        with "2.hyps"(1)[OF False Some True r d s] False Some True show ?thesis
          by (auto simp: stringSet_add_def)
      next
        case F2: False
        with False Some "2.prems"(1) have r: "visitDeps cs deps (sub, visited) = Inr (sub', vis')"
          by simp
        from "2.hyps"(2)[OF False Some _ r "2.prems"(2,3)] F2 show ?thesis by simp
      qed
    qed
  qed
qed

lemma visitGeneration_sound:
  "visitGeneration td cs gen (sub, vis) = Inr (sub', vis') \<Longrightarrow>
   distinct sub \<Longrightarrow> set sub \<subseteq> set vis \<Longrightarrow>
   distinct sub' \<and> set sub' \<subseteq> set vis' \<and> set vis' = set vis \<union> set sub' \<and>
   (\<forall>x \<in> set sub' - set sub. x \<notin> set vis \<and> (\<exists>c. cs x = Some c \<and> c_optional c \<noteq> Default))"
proof (induction gen arbitrary: sub vis)
  case Nil
  then show ?case by auto
next
  case (Cons vid vids)
  show ?case
  proof (cases "map_of td vid")
    case None
    with Cons.prems have "visitGeneration td cs vids (sub, vis) = Inr (sub', vis')" by simp
    from Cons.IH[OF this Cons.prems(2,3)] show ?thesis .
  next
    case (Some deps)
    from Cons.prems(1) Some obtain sub1 vis1 where
      d: "visitDeps cs deps (sub, vis) = Inr (sub1, vis1)" and
      g: "visitGeneration td cs vids (sub1, vis1) = Inr (sub', vis')"
      by (auto split: sum.splits)
    note a = visitDeps_sound[OF d Cons.prems(2,3)]
    from a have d1: "distinct sub1" and s1: "set sub1 \<subseteq> set vis1" by blast+
    note b = Cons.IH[OF g d1 s1]
    from a have a3: "set vis1 = set vis \<union> set sub1"
      and a4: "\<forall>x \<in> set sub1 - set sub. x \<notin> set vis \<and> (\<exists>c. cs x = Some c \<and> c_optional c \<noteq> Default)"
      by blast+
    from b have b1: "distinct sub'" and b2: "set sub' \<subseteq> set vis'"
      and b3: "set vis' = set vis1 \<union> set sub'"
      and b4: "\<forall>x \<in> set sub' - set sub1. x \<notin> set vis1 \<and> (\<exists>c. cs x = Some c \<and> c_optional c \<noteq> Default)"
      by blast+
    have sub1': "set sub1 \<subseteq> set sub'" using visitGeneration_grows[OF g] by blast
    have c3: "set vis' = set vis \<union> set sub'" using a3 b3 sub1' by blast
    have c4: "\<forall>x \<in> set sub' - set sub. x \<notin> set vis \<and> (\<exists>c. cs x = Some c \<and> c_optional c \<noteq> Default)"
    proof
      fix x assume x: "x \<in> set sub' - set sub"
      show "x \<notin> set vis \<and> (\<exists>c. cs x = Some c \<and> c_optional c \<noteq> Default)"
      proof (cases "x \<in> set sub1")
        case True
        with x a4 show ?thesis by blast
      next
        case False
        with x b4 a3 show ?thesis by blast
      qed
    qed
    show ?thesis using b1 b2 c3 c4 by blast
  qed
qed

text \<open>What the traversal returns when it completes, from any point of the loop
  where \<open>promote\<close> is without repetition and visited: \<open>promote\<close> extended by ids that
  were not visited before and are registered constraints of a level other than
  Default, without repetition.\<close>

lemma promoteLoop_sound:
  "promoteLoop td cs d promote i vis = Inr r \<Longrightarrow> distinct promote \<Longrightarrow> set promote \<subseteq> set vis \<Longrightarrow>
   \<exists>rest. r = promote @ rest \<and> distinct r \<and>
          (\<forall>x \<in> set rest. x \<notin> set vis \<and> (\<exists>c. cs x = Some c \<and> c_optional c \<noteq> Default))"
proof (induction td cs d promote i vis arbitrary: r rule: promoteLoop.induct)
  case (1 td cs d promote i visited)
  show ?case
  proof (cases "i < length promote")
    case False
    with "1.prems"(1) have "r = promote" by (subst (asm) promoteLoop.simps) simp
    with "1.prems"(2) show ?thesis by simp
  next
    case True
    from "1.prems"(1) True obtain sub vis' where
      g: "visitGeneration td cs (drop i promote) ([], visited) = Inr (sub, vis')" and
      rec: "promoteLoop td cs d (promote @ sortBy d sub) (length promote) vis' = Inr r"
      by (subst (asm) promoteLoop.simps) (auto split: sum.splits simp del: promoteLoop.simps)
    have snd: "distinct sub \<and> set sub \<subseteq> set vis' \<and> set vis' = set visited \<union> set sub \<and>
       (\<forall>x \<in> set sub - set []. x \<notin> set visited \<and> (\<exists>c. cs x = Some c \<and> c_optional c \<noteq> Default))"
      by (rule visitGeneration_sound[OF g]) simp_all
    have d': "distinct (promote @ sortBy d sub)"
      using "1.prems"(2,3) snd by (auto simp: distinct_sortBy set_sortBy)
    have s': "set (promote @ sortBy d sub) \<subseteq> set vis'"
      using "1.prems"(3) snd by (auto simp: set_sortBy)
    from "1.IH"[OF True g refl rec d' s']
    obtain rest where rest: "r = (promote @ sortBy d sub) @ rest" "distinct r"
      "\<forall>x \<in> set rest. x \<notin> set vis' \<and> (\<exists>c. cs x = Some c \<and> c_optional c \<noteq> Default)"
      by blast
    have "\<forall>x \<in> set (sortBy d sub @ rest).
            x \<notin> set visited \<and> (\<exists>c. cs x = Some c \<and> c_optional c \<noteq> Default)"
      using rest(3) snd by (auto simp: set_sortBy)
    with rest(1,2) show ?thesis by auto
  qed
qed

lemma promoteOne_planner:
  "planner (promoteOne u c) = Some (setMaxStrength (plannerOf u) c)"
  by (simp add: promoteOne_def Let_def recordConstraintChange_def recordChange_def
        scheduleUpdate_def)

lemma promoteOne_sgraph: "sgraph (promoteOne u c) = sgraph u"
  by (simp add: promoteOne_def Let_def recordConstraintChange_def recordChange_def
        scheduleUpdate_def)

lemma promoteOne_isSelected: "isSelected (promoteOne u c) x = isSelected u x"
  by (simp add: isSelected_def promoteOne_sgraph)

lemma promoteOne_needEnforcing:
  "needEnforcing (promoteOne u c) =
     (if isSelected u c then needEnforcing u else stringSet_add (needEnforcing u) c)"
  by (simp add: promoteOne_def Let_def recordConstraintChange_def recordChange_def
        scheduleUpdate_def isSelected_def)

lemma foldl_promoteOne_isSelected: "isSelected (foldl promoteOne u cs) x = isSelected u x"
  by (induction cs arbitrary: u) (simp_all add: promoteOne_isSelected)

lemma foldl_promoteOne_keeps:
  "x \<in> set (needEnforcing u) \<Longrightarrow> x \<in> set (needEnforcing (foldl promoteOne u cs))"
proof (induction cs arbitrary: u)
  case Nil
  then show ?case by simp
next
  case (Cons c cs)
  have "x \<in> set (needEnforcing (promoteOne u c))"
    using Cons.prems by (simp add: promoteOne_needEnforcing stringSet_add_def)
  then show ?case by (simp add: Cons.IH)
qed

lemma foldl_promoteOne_marks:
  "x \<in> set cs \<Longrightarrow> \<not> isSelected u x \<Longrightarrow> x \<in> set (needEnforcing (foldl promoteOne u cs))"
proof (induction cs arbitrary: u)
  case Nil
  then show ?case by simp
next
  case (Cons c cs)
  show ?case
  proof (cases "x = c")
    case True
    have "x \<in> set (needEnforcing (promoteOne u c))"
      using Cons.prems(2) True by (simp add: promoteOne_needEnforcing stringSet_add_def)
    then show ?thesis by (simp add: foldl_promoteOne_keeps)
  next
    case False
    with Cons.prems have "x \<in> set cs" by simp
    moreover have "\<not> isSelected (promoteOne u c) x"
      using Cons.prems(2) by (simp add: promoteOne_isSelected)
    ultimately show ?thesis by (simp add: Cons.IH)
  qed
qed

lemma plannerOf_promoteOne: "plannerOf (promoteOne u c) = setMaxStrength (plannerOf u) c"
  by (simp add: plannerOf_def promoteOne_planner)

lemma foldl_promoteOne_ranked_keeps:
  "x \<in> set (pl_strengths (plannerOf u)) \<Longrightarrow>
   x \<in> set (pl_strengths (plannerOf (foldl promoteOne u cs)))"
proof (induction cs arbitrary: u)
  case Nil
  then show ?case by simp
next
  case (Cons c cs)
  have "x \<in> set (pl_strengths (plannerOf (promoteOne u c)))"
    using Cons.prems by (auto simp: plannerOf_promoteOne setMaxStrength_def)
  then show ?case by (simp add: Cons.IH)
qed

lemma foldl_promoteOne_ranked:
  "x \<in> set cs \<Longrightarrow> x \<in> set (pl_strengths (plannerOf (foldl promoteOne u cs)))"
proof (induction cs arbitrary: u)
  case Nil
  then show ?case by simp
next
  case (Cons c cs)
  show ?case
  proof (cases "x = c")
    case True
    have "x \<in> set (pl_strengths (plannerOf (promoteOne u c)))"
      using True by (simp add: plannerOf_promoteOne setMaxStrength_def)
    then show ?thesis by (simp add: foldl_promoteOne_ranked_keeps)
  next
    case False
    with Cons.prems show ?thesis by (simp add: Cons.IH)
  qed
qed

lemma strengthRank_bound:
  "x \<in> set xs \<Longrightarrow> \<exists>i. strengthRank xs x = Some i \<and> i < length xs"
  by (induction xs) auto

lemma strengthRank_append_last:
  "c \<notin> set ys \<Longrightarrow> strengthRank (ys @ [c]) c = Some (length ys)"
  by (induction ys) auto

lemma strengthRank_append_other:
  "x \<in> set ys \<Longrightarrow> strengthRank (ys @ [c]) x = strengthRank ys x"
  by (induction ys) auto

text \<open>After \<^verbatim>\<open>setMaxStrength\<close> of an id, no id of the order is stronger.\<close>

lemma compare_setMaxStrength:
  assumes "x \<in> set (pl_strengths (setMaxStrength p c))"
  shows "0 \<le> compare (setMaxStrength p c) c x"
proof -
  define ys where "ys = removeAll c (pl_strengths p)"
  have l: "pl_strengths (setMaxStrength p c) = ys @ [c]" by (simp add: setMaxStrength_def ys_def)
  have cn: "c \<notin> set ys" by (simp add: ys_def)
  have rc: "strengthRank (ys @ [c]) c = Some (length ys)"
    using cn by (rule strengthRank_append_last)
  show ?thesis
  proof (cases "x = c")
    case True
    then show ?thesis by (simp add: compare_def l rc)
  next
    case False
    with assms l have xy: "x \<in> set ys" by simp
    from strengthRank_bound[OF xy] obtain i where i: "strengthRank ys x = Some i" "i < length ys"
      by blast
    have "strengthRank (ys @ [c]) x = Some i"
      using strengthRank_append_other[OF xy] i(1) by simp
    then show ?thesis using i(2) by (simp add: compare_def l rc)
  qed
qed

text \<open>What \<^verbatim>\<open>doPromotions\<close> has done when it returns: it has collected the
  originating id first and then, without repetition, registered constraints of a
  level other than Default; the originating id is at the strongest end of the
  planner's order, no collected id is stronger, and every collected id without a
  selected method is in \<^verbatim>\<open>needEnforcing\<close>.\<close>

lemma doPromotions_done:
  assumes ret: "doPromotions s c = Done t"
  shows "\<exists>rest p.
           promoteLoop (touchDeps s) (constraints s) (\<lambda>cid1 cid2. compare (plannerOf s) cid2 cid1)
             [c] 0 [c] = Inr (c # rest)
         \<and> distinct (c # rest)
         \<and> (\<forall>x \<in> set rest. \<exists>cc. constraints s x = Some cc \<and> c_optional cc \<noteq> Default)
         \<and> planner t = Some p \<and> last (pl_strengths p) = c
         \<and> (\<forall>x \<in> set (c # rest). 0 \<le> compare p c x)
         \<and> (\<forall>x \<in> set (c # rest). \<not> isSelected s x \<longrightarrow> x \<in> set (needEnforcing t))"
proof -
  define d where "d = (\<lambda>cid1 cid2. compare (plannerOf s) cid2 cid1)"
  define s0 where "s0 = getPlanner s"
  have p0: "plannerOf s0 = plannerOf s" by (simp add: s0_def getPlanner_def plannerOf_def)
  have sel0: "isSelected s0 x = isSelected s x" for x
    by (simp add: s0_def getPlanner_def isSelected_def)
  from ret obtain promote where
    loop: "promoteLoop (touchDeps s) (constraints s) d [c] 0 [c] = Inr promote" and
    t: "t = foldl promoteOne s0 (rev promote)"
    by (auto simp: doPromotions_def Let_def s0_def d_def getPlanner_def plannerOf_def
          split: sum.splits simp del: promoteLoop.simps)
  from promoteLoop_sound[OF loop] obtain rest where
    r: "promote = [c] @ rest" "distinct promote"
       "\<forall>x \<in> set rest. x \<notin> set [c] \<and> (\<exists>cc. constraints s x = Some cc \<and> c_optional cc \<noteq> Default)"
    by auto
  define u where "u = foldl promoteOne s0 (rev rest)"
  have tu: "t = promoteOne u c" by (simp add: t r(1) u_def)
  define p where "p = setMaxStrength (plannerOf u) c"
  have pt: "planner t = Some p" by (simp add: tu promoteOne_planner p_def)
  have lastc: "last (pl_strengths p) = c" by (simp add: p_def setMaxStrength_def)
  have ranked: "x \<in> set (pl_strengths p)" if "x \<in> set (c # rest)" for x
  proof -
    from that have "x \<in> set (rev promote)" by (simp add: r(1))
    then have "x \<in> set (pl_strengths (plannerOf (foldl promoteOne s0 (rev promote))))"
      by (rule foldl_promoteOne_ranked)
    then show ?thesis by (simp add: t[symmetric] plannerOf_def pt)
  qed
  have strongest: "\<forall>x \<in> set (c # rest). 0 \<le> compare p c x"
    using ranked unfolding p_def by (blast intro: compare_setMaxStrength)
  have marked: "\<forall>x \<in> set (c # rest). \<not> isSelected s x \<longrightarrow> x \<in> set (needEnforcing t)"
  proof (intro ballI impI)
    fix x assume x: "x \<in> set (c # rest)" and ns: "\<not> isSelected s x"
    from x have "x \<in> set (rev promote)" by (simp add: r(1))
    moreover have "\<not> isSelected s0 x" using ns by (simp add: sel0)
    ultimately show "x \<in> set (needEnforcing t)" unfolding t by (rule foldl_promoteOne_marks)
  qed
  have l: "promoteLoop (touchDeps s) (constraints s) (\<lambda>cid1 cid2. compare (plannerOf s) cid2 cid1)
             [c] 0 [c] = Inr (c # rest)"
    using loop r(1) by (simp add: d_def del: promoteLoop.simps)
  have dist: "distinct (c # rest)" using r(1,2) by simp
  have lev: "\<forall>x \<in> set rest. \<exists>cc. constraints s x = Some cc \<and> c_optional cc \<noteq> Default"
    using r(3) by blast
  show ?thesis using l dist lev pt lastc strongest marked by blast
qed







subsection \<open>The stay methods\<close>

lemma isStayMethod_stayMethod [simp]: "isStayMethod (stayMethod v)"
  by (simp add: isStayMethod_def stayMethod_def)

lemma isStayConstraint_stayConstraint [simp]: "isStayConstraint (stayConstraint v)"
  by (simp add: isStayConstraint_def stayConstraint_def)

lemma stayMethod_inj [simp]: "stayMethod v = stayMethod w \<longleftrightarrow> v = w"
  by (simp add: stayMethod_def)

lemma stayConstraint_inj [simp]: "stayConstraint v = stayConstraint w \<longleftrightarrow> v = w"
  by (simp add: stayConstraint_def)

lemma stayEntry_simps [simp]:
  "cm_id (stayEntry v) = stayMethod v" "cm_cid (stayEntry v) = stayConstraint v"
  "cm_inputs (stayEntry v) = []" "cm_outputs (stayEntry v) = [v]"
  by (simp_all add: stayEntry_def)

lemma stayEntry_inj: "stayEntry v = stayEntry w \<Longrightarrow> v = w"
  by (auto simp: stayEntry_def)


















lemma recordChange_core [simp]:
  "variables (recordChange s) = variables s" "cgraph (recordChange s) = cgraph s"
  "ctxChanges (recordChange s) = ctxChanges s"
  by (simp_all add: recordChange_def scheduleUpdate_def Let_def)

lemma recordConstraintChange_core [simp]:
  "variables (recordConstraintChange s c) = variables s"
  "cgraph (recordConstraintChange s c) = cgraph s"
  "ctxChanges (recordConstraintChange s c) = ctxChanges s"
  by (simp_all add: recordConstraintChange_def)

lemma recordVariableChange_core [simp]:
  "variables (recordVariableChange s c) = variables s"
  "cgraph (recordVariableChange s c) = cgraph s"
  "ctxChanges (recordVariableChange s c) = ctxChanges s"
  by (simp_all add: recordVariableChange_def)

lemma removeConstraintRecords_core [simp]:
  "variables (removeConstraintRecords s c) = variables s"
  "cgraph (removeConstraintRecords s c) = cgraph s"
  "ctxChanges (removeConstraintRecords s c) = ctxChanges s"
  by (simp_all add: removeConstraintRecords_def)








































end
